theory Spec2Isabelle
  imports Complex_Main
begin

section \<open>Dependency map utilities (workers/DependencyMap/utils.ts)\<close>

text \<open>
  \<^verbatim>\<open>allPaths: Record<string, true>\<close> is a plain object used as a set of keys. It is a map
  from strings to the one value \<^verbatim>\<open>true\<close>; \<^verbatim>\<open>allPaths.hasOwnProperty(k)\<close> asks whether
  \<open>k\<close> is an own key, that is, whether the map is defined at \<open>k\<close>. The method is the
  one every object inherits: the keys are paths of entities, and a key named
  \<^verbatim>\<open>hasOwnProperty\<close>, which would hide the method, is taken not to occur.
\<close>

type_synonym allPaths = "string \<rightharpoonup> unit"

definition hasOwnProperty :: "allPaths \<Rightarrow> string \<Rightarrow> bool" where
  "hasOwnProperty allPaths k = (allPaths k \<noteq> None)"

text \<open>
  The result object \<^verbatim>\<open>{ references: string[]; unreferencedIdentifiers: string[] }\<close>.
\<close>

record info =
  references :: "string list"
  unreferencedIdentifiers :: "string list"

text \<open>
  \<^verbatim>\<open>references\<close> is a JavaScript \<^verbatim>\<open>Set<string>\<close>: it keeps its elements in insertion
  order, \<^verbatim>\<open>add\<close> of an element already present changes nothing, and
  \<^verbatim>\<open>Array.from\<close> lists the elements in insertion order. The set is the list of its
  elements in that order.
\<close>

definition Set_add :: "string \<Rightarrow> string list \<Rightarrow> string list" where
  "Set_add x s = (if x \<in> set s then s else s @ [x])"

text \<open>
  Three functions that the file imports are not part of the sources at hand:
  \<^verbatim>\<open>toPath\<close> (lodash), \<^verbatim>\<open>convertPathToString\<close> (\<^verbatim>\<open>../evaluationUtils\<close>) and
  \<^verbatim>\<open>extractIdentifiersFromCode\<close> (\<^verbatim>\<open>@shared/ast\<close>). They are parameters of the
  model, so every theorem below holds whatever these functions compute.
\<close>

type_synonym toPath = "string \<Rightarrow> string list"
type_synonym convertPathToString = "string list \<Rightarrow> string"
type_synonym extractIdentifiersFromCode = "string \<Rightarrow> nat option \<Rightarrow> string list"

text \<open>
  The loop of \<^verbatim>\<open>extractInfoFromIdentifiers\<close>:
  \<^verbatim>\<open>
    while (subpaths.length > 1) {
      current = convertPathToString(subpaths);
      if (allPaths.hasOwnProperty(current)) { references.add(current); return; }
      subpaths.pop();
    }
  \<close>
  It returns \<open>Some current\<close> when it leaves through the \<^verbatim>\<open>return\<close> (the caller then
  adds \<open>current\<close> to the references), and \<open>None\<close> when the condition fails.
  \<^verbatim>\<open>subpaths.pop()\<close> removes the last segment.
\<close>

function while_subpaths :: "convertPathToString \<Rightarrow> allPaths \<Rightarrow> string list \<Rightarrow> string option" where
  "while_subpaths convertPathToString allPaths subpaths =
     (if length subpaths > 1 then
        let current = convertPathToString subpaths in
        if hasOwnProperty allPaths current then Some current
        else while_subpaths convertPathToString allPaths (butlast subpaths)
      else None)"
  by pat_completeness auto
termination
  by (relation "measure (\<lambda>(c, a, subpaths). length subpaths)") auto

declare while_subpaths.simps [simp del]

text \<open>
  The callback of \<^verbatim>\<open>identifiers.forEach\<close>, on the state made of the set
  \<^verbatim>\<open>references\<close> and the array \<^verbatim>\<open>unreferencedIdentifiers\<close>. A \<^verbatim>\<open>return\<close> in the
  callback ends the visit of this identifier only.
\<close>

definition forEach_callback ::
  "toPath \<Rightarrow> convertPathToString \<Rightarrow> allPaths \<Rightarrow> string \<Rightarrow>
   string list \<times> string list \<Rightarrow> string list \<times> string list" where
  "forEach_callback toPath convertPathToString allPaths identifier st =
     (case st of (refs, unrefs) \<Rightarrow>
        if hasOwnProperty allPaths identifier then (Set_add identifier refs, unrefs)
        else
          (case while_subpaths convertPathToString allPaths (toPath identifier) of
             Some current \<Rightarrow> (Set_add current refs, unrefs)
           | None \<Rightarrow> (refs, unrefs @ [identifier])))"

definition extractInfoFromIdentifiers ::
  "toPath \<Rightarrow> convertPathToString \<Rightarrow> string list \<Rightarrow> allPaths \<Rightarrow> info" where
  "extractInfoFromIdentifiers toPath convertPathToString identifiers allPaths =
     (case fold (forEach_callback toPath convertPathToString allPaths) identifiers ([], []) of
        (refs, unrefs) \<Rightarrow> \<lparr>references = refs, unreferencedIdentifiers = unrefs\<rparr>)"

text \<open>
  \<^verbatim>\<open>self?.evaluationVersion\<close> reads the version from the worker's global object, and is
  \<^verbatim>\<open>undefined\<close> when there is none: the global is an optional record.
\<close>

record worker_global =
  evaluationVersion :: nat

definition extractInfoFromBinding ::
  "extractIdentifiersFromCode \<Rightarrow> worker_global option \<Rightarrow> toPath \<Rightarrow> convertPathToString \<Rightarrow>
   string \<Rightarrow> allPaths \<Rightarrow> info" where
  "extractInfoFromBinding extractIdentifiersFromCode self toPath convertPathToString script allPaths =
     (let identifiers = extractIdentifiersFromCode script (map_option evaluationVersion self)
      in extractInfoFromIdentifiers toPath convertPathToString identifiers allPaths)"

text \<open>
  The composition that C8 states: identifier extraction from the code, at a given
  version, followed by the classification of the identifiers.
\<close>

definition extraction_composition ::
  "extractIdentifiersFromCode \<Rightarrow> nat option \<Rightarrow> toPath \<Rightarrow> convertPathToString \<Rightarrow>
   allPaths \<Rightarrow> string \<Rightarrow> info" where
  "extraction_composition extractIdentifiersFromCode version toPath convertPathToString allPaths =
     (\<lambda>identifiers. extractInfoFromIdentifiers toPath convertPathToString identifiers allPaths)
       \<circ> (\<lambda>script. extractIdentifiersFromCode script version)"

text \<open>
  What the callback derives from one identifier: the reference it adds, or \<open>None\<close> when it
  pushes the identifier to \<^verbatim>\<open>unreferencedIdentifiers\<close>. It is used to state what the
  \<^verbatim>\<open>forEach\<close> has accumulated; \<open>forEach_callback_derived\<close> relates it to the callback.
\<close>

definition derived_reference ::
  "toPath \<Rightarrow> convertPathToString \<Rightarrow> allPaths \<Rightarrow> string \<Rightarrow> string option" where
  "derived_reference toPath convertPathToString allPaths identifier =
     (if hasOwnProperty allPaths identifier then Some identifier
      else while_subpaths convertPathToString allPaths (toPath identifier))"

subsection \<open>An instance of the imported functions: dotted identifiers\<close>

text \<open>
  Modelled from the spec: \<^verbatim>\<open>toPath\<close> of lodash and \<^verbatim>\<open>convertPathToString\<close> of
  \<^verbatim>\<open>workers/evaluationUtils\<close> are not among the sources. The spec says that "bindings
  reference paths by dotted/bracket identifier syntax"; the two functions below cover
  the dotted fragment only (\<^verbatim>\<open>Table1.selectedRow.name\<close>): the first splits an identifier
  at its dots, the second joins segments with dots. Brackets are not interpreted. They
  serve as concrete arguments where a theorem is applied to an example; no theorem
  depends on them.
\<close>

fun dotted_segments :: "string \<Rightarrow> string list" where
  "dotted_segments [] = [[]]"
| "dotted_segments (c # cs) =
     (if c = CHR ''.'' then [] # dotted_segments cs
      else (case dotted_segments cs of
              [] \<Rightarrow> [[c]]
            | s # ss \<Rightarrow> (c # s) # ss))"

definition dotted_toPath :: toPath where
  "dotted_toPath identifier = (if identifier = [] then [] else dotted_segments identifier)"

definition dotted_convertPathToString :: convertPathToString where
  "dotted_convertPathToString arrPath =
     fold (\<lambda>segment str. (if str \<noteq> [] then str @ ''.'' else str) @ segment) arrPath []"

section \<open>Number slider utilities (widgets/NumberSliderWidget/utils.ts)\<close>

text \<open>
  The arguments of the slider functions are taken as exact rational numbers. A division
  by zero leaves the rationals: JavaScript yields \<^verbatim>\<open>Infinity\<close>, \<^verbatim>\<open>-Infinity\<close> or
  \<^verbatim>\<open>NaN\<close>, so results are of type \<open>number\<close>, and the operations applied to such results
  are written out on it. Rounding error and the sign of zero are not modelled: a zero
  divisor counts as \<^verbatim>\<open>+0\<close>.
\<close>

datatype number = Finite rat | Infinity | NegInfinity | NaN

definition divide_number :: "rat \<Rightarrow> rat \<Rightarrow> number" where
  "divide_number a b =
     (if b = 0 then (if a = 0 then NaN else if 0 < a then Infinity else NegInfinity)
      else Finite (a / b))"

fun times_number :: "number \<Rightarrow> rat \<Rightarrow> number" where
  "times_number (Finite a) b = Finite (a * b)"
| "times_number Infinity b = (if b = 0 then NaN else if 0 < b then Infinity else NegInfinity)"
| "times_number NegInfinity b = (if b = 0 then NaN else if 0 < b then NegInfinity else Infinity)"
| "times_number NaN b = NaN"

fun plus_number :: "number \<Rightarrow> rat \<Rightarrow> number" where
  "plus_number (Finite a) b = Finite (a + b)"
| "plus_number n b = n"

text \<open>\<^verbatim>\<open>Math.max(x, b)\<close> and \<^verbatim>\<open>Math.min(x, b)\<close> for a finite \<open>b\<close>; both yield \<^verbatim>\<open>NaN\<close> on \<^verbatim>\<open>NaN\<close>.\<close>

fun Math_max :: "number \<Rightarrow> rat \<Rightarrow> number" where
  "Math_max (Finite a) b = Finite (max a b)"
| "Math_max Infinity b = Infinity"
| "Math_max NegInfinity b = Finite b"
| "Math_max NaN b = NaN"

fun Math_min :: "number \<Rightarrow> rat \<Rightarrow> number" where
  "Math_min (Finite a) b = Finite (min a b)"
| "Math_min Infinity b = Finite b"
| "Math_min NegInfinity b = NegInfinity"
| "Math_min NaN b = NaN"

text \<open>
  \<^verbatim>\<open>Math.round\<close> rounds to the nearest integer, a tie towards \<^verbatim>\<open>+Infinity\<close>:
  \<open>\<lfloor>x + 1/2\<rfloor>\<close>.
\<close>

fun Math_round :: "number \<Rightarrow> number" where
  "Math_round (Finite a) = Finite (of_int \<lfloor>a + 1 / 2\<rfloor>)"
| "Math_round n = n"

record GetPosition =
  value_n :: rat
  min_n :: rat
  max_n :: rat

text \<open>
  \<^verbatim>\<open>
  export function getPosition({ max, min, value }: GetPosition) {
    const position = ((value - min) / (max - min)) * 100;
    return Math.min(Math.max(position, 0), 100);
  }
  \<close>
\<close>

definition getPosition :: "'a GetPosition_scheme \<Rightarrow> number" where
  "getPosition p =
     (let position = times_number (divide_number (value_n p - min_n p) (max_n p - min_n p)) 100
      in Math_min (Math_max position 0) 100)"

text \<open>
  The interface \<^verbatim>\<open>GetChangeValue\<close> has the fields \<^verbatim>\<open>value\<close>, \<^verbatim>\<open>min\<close> and \<^verbatim>\<open>max\<close> of
  \<^verbatim>\<open>GetPosition\<close>, \<^verbatim>\<open>step\<close>, and the optional \<^verbatim>\<open>precision\<close> and \<^verbatim>\<open>containerWidth\<close>
  (\<open>None\<close> is \<^verbatim>\<open>undefined\<close>).
\<close>

record GetChangeValue = GetPosition +
  step :: rat
  precision :: "int option"
  containerWidth :: "rat option"

datatype error = RangeError

text \<open>
  \<^verbatim>\<open>Number(x.toFixed(digits))\<close>: \<^verbatim>\<open>toFixed\<close> throws a \<^verbatim>\<open>RangeError\<close> unless
  \<open>0 \<le> digits \<le> 100\<close>; it prints a value that is not finite, or of magnitude at least
  \<open>10\<^sup>2\<^sup>1\<close>, as \<^verbatim>\<open>toString\<close> does, and \<^verbatim>\<open>Number\<close> reads that value back; otherwise the
  value is rounded to \<open>digits\<close> decimals, a tie away from zero.
\<close>

definition Number_toFixed :: "number \<Rightarrow> int \<Rightarrow> error + number" where
  "Number_toFixed x digits =
     (if digits < 0 \<or> 100 < digits then Inl RangeError
      else (case x of
              Finite a \<Rightarrow>
                if 10 ^ 21 \<le> \<bar>a\<bar> then Inr (Finite a)
                else if a < 0 then
                  Inr (Finite (- (of_int \<lfloor>- a * 10 ^ nat digits + 1 / 2\<rfloor> / 10 ^ nat digits)))
                else Inr (Finite (of_int \<lfloor>a * 10 ^ nat digits + 1 / 2\<rfloor> / 10 ^ nat digits))
            | _ \<Rightarrow> Inr x))"

text \<open>
  \<^verbatim>\<open>
    const left = !containerWidth
      ? value
      : Math.min(Math.max(value, 0), containerWidth) / containerWidth;
    const dx = left * (max - min);
    const nextValue = (dx !== 0 ? Math.round(dx / step) * step : 0) + min;
    if (precision !== undefined) {
      return Number(nextValue.toFixed(precision));
    }
    return nextValue;
  \<close>
  \<^verbatim>\<open>!containerWidth\<close> holds when the width is \<^verbatim>\<open>undefined\<close> or zero.
\<close>

definition getChangeValue_left :: "'a GetChangeValue_scheme \<Rightarrow> rat" where
  "getChangeValue_left p =
     (case containerWidth p of
        None \<Rightarrow> value_n p
      | Some w \<Rightarrow> if w = 0 then value_n p else min (max (value_n p) 0) w / w)"

definition getChangeValue_dx :: "'a GetChangeValue_scheme \<Rightarrow> rat" where
  "getChangeValue_dx p = getChangeValue_left p * (max_n p - min_n p)"

definition getChangeValue :: "'a GetChangeValue_scheme \<Rightarrow> error + number" where
  "getChangeValue p =
     (let dx = getChangeValue_dx p;
          nextValue =
            plus_number
              (if dx \<noteq> 0 then times_number (Math_round (divide_number dx (step p))) (step p)
               else Finite 0)
              (min_n p)
      in case precision p of
           Some digits \<Rightarrow> Number_toFixed nextValue digits
         | None \<Rightarrow> Inr nextValue)"

section \<open>Lemmas on the dependency map utilities\<close>

lemma forEach_callback_derived:
  "forEach_callback tp cps ap identifier (refs, unrefs) =
     (case derived_reference tp cps ap identifier of
        Some r \<Rightarrow> (Set_add r refs, unrefs)
      | None \<Rightarrow> (refs, unrefs @ [identifier]))"
  by (simp add: forEach_callback_def derived_reference_def)

lemma set_Set_add: "set (Set_add x s) = insert x (set s)"
  by (auto simp: Set_add_def)

lemma distinct_Set_add: "distinct s \<Longrightarrow> distinct (Set_add x s)"
  by (simp add: Set_add_def)

lemma fold_callback_references:
  "set (fst (fold (forEach_callback tp cps ap) ids (refs, unrefs))) =
     set refs \<union> {r. \<exists>i \<in> set ids. derived_reference tp cps ap i = Some r}"
proof (induction ids arbitrary: refs unrefs)
  case Nil
  then show ?case by simp
next
  case (Cons i ids)
  show ?case
  proof (cases "derived_reference tp cps ap i")
    case None
    then show ?thesis
      by (auto simp: forEach_callback_derived Cons.IH)
  next
    case (Some r)
    then show ?thesis
      by (auto simp: forEach_callback_derived Cons.IH set_Set_add)
  qed
qed

lemma fold_callback_unreferenced:
  "snd (fold (forEach_callback tp cps ap) ids (refs, unrefs)) =
     unrefs @ filter (\<lambda>i. derived_reference tp cps ap i = None) ids"
proof (induction ids arbitrary: refs unrefs)
  case Nil
  then show ?case by simp
next
  case (Cons i ids)
  show ?case
    by (cases "derived_reference tp cps ap i")
       (simp_all add: forEach_callback_derived Cons.IH)
qed

lemma fold_callback_distinct:
  "distinct refs \<Longrightarrow> distinct (fst (fold (forEach_callback tp cps ap) ids (refs, unrefs)))"
proof (induction ids arbitrary: refs unrefs)
  case Nil
  then show ?case by simp
next
  case (Cons i ids)
  show ?case
    by (cases "derived_reference tp cps ap i")
       (simp_all add: forEach_callback_derived Cons.IH Cons.prems distinct_Set_add)
qed

lemma references_extractInfoFromIdentifiers:
  "references (extractInfoFromIdentifiers tp cps ids ap) =
     fst (fold (forEach_callback tp cps ap) ids ([], []))"
  by (simp add: extractInfoFromIdentifiers_def split: prod.splits)

lemma unreferenced_extractInfoFromIdentifiers:
  "unreferencedIdentifiers (extractInfoFromIdentifiers tp cps ids ap) =
     snd (fold (forEach_callback tp cps ap) ids ([], []))"
  by (simp add: extractInfoFromIdentifiers_def split: prod.splits)

lemma while_subpaths_key:
  "while_subpaths cps ap subpaths = Some r \<Longrightarrow> hasOwnProperty ap r"
proof (induction cps ap subpaths rule: while_subpaths.induct)
  case (1 cps ap subpaths)
  then show ?case
    by (subst (asm) (2) while_subpaths.simps) (auto simp: Let_def split: if_splits)
qed

lemma derived_reference_key:
  "derived_reference tp cps ap i = Some r \<Longrightarrow> hasOwnProperty ap r"
  by (auto simp: derived_reference_def while_subpaths_key split: if_splits)

text \<open>
  The loop returns the string of the longest prefix of at least two segments that is a key,
  and \<open>None\<close> exactly when no such prefix is a key. A prefix of \<open>n\<close> segments is
  \<open>take n subpaths\<close>.
\<close>

lemma while_subpaths_Some:
  "while_subpaths cps ap subpaths = Some r \<longleftrightarrow>
     (\<exists>n. 2 \<le> n \<and> n \<le> length subpaths \<and> r = cps (take n subpaths) \<and>
          hasOwnProperty ap (cps (take n subpaths)) \<and>
          (\<forall>m. n < m \<and> m \<le> length subpaths \<longrightarrow> \<not> hasOwnProperty ap (cps (take m subpaths))))"
proof (induction cps ap subpaths rule: while_subpaths.induct)
  case (1 cps ap subpaths)
  show ?case
  proof (cases "length subpaths > 1")
    case False
    then show ?thesis
      by (subst while_subpaths.simps) auto
  next
    case long: True
    show ?thesis
    proof (cases "hasOwnProperty ap (cps subpaths)")
      case True
      have "while_subpaths cps ap subpaths = Some (cps subpaths)"
        using long True by (subst while_subpaths.simps) simp
      moreover have "(\<exists>n. 2 \<le> n \<and> n \<le> length subpaths \<and> r = cps (take n subpaths) \<and>
          hasOwnProperty ap (cps (take n subpaths)) \<and>
          (\<forall>m. n < m \<and> m \<le> length subpaths \<longrightarrow> \<not> hasOwnProperty ap (cps (take m subpaths))))
          \<longleftrightarrow> r = cps subpaths" (is "?L \<longleftrightarrow> ?R")
      proof
        assume ?L
        then obtain n where n: "2 \<le> n" "n \<le> length subpaths" "r = cps (take n subpaths)"
          "\<forall>m. n < m \<and> m \<le> length subpaths \<longrightarrow> \<not> hasOwnProperty ap (cps (take m subpaths))"
          by blast
        have "n = length subpaths"
        proof (rule ccontr)
          assume "n \<noteq> length subpaths"
          with n have "n < length subpaths" by simp
          with n(4) have "\<not> hasOwnProperty ap (cps (take (length subpaths) subpaths))" by blast
          with True show False by simp
        qed
        with n show ?R by simp
      next
        assume ?R
        with long True show ?L
          by (intro exI [of _ "length subpaths"]) simp
      qed
      ultimately show ?thesis by auto
    next
      case False
      have step: "while_subpaths cps ap subpaths = while_subpaths cps ap (butlast subpaths)"
        using long False by (subst while_subpaths.simps) simp
      have IH: "while_subpaths cps ap (butlast subpaths) = Some r \<longleftrightarrow>
         (\<exists>n. 2 \<le> n \<and> n \<le> length (butlast subpaths) \<and> r = cps (take n (butlast subpaths)) \<and>
          hasOwnProperty ap (cps (take n (butlast subpaths))) \<and>
          (\<forall>m. n < m \<and> m \<le> length (butlast subpaths) \<longrightarrow>
             \<not> hasOwnProperty ap (cps (take m (butlast subpaths)))))"
        using "1.IH" [OF long refl False] .
      have tk: "\<And>k. k \<le> length subpaths - 1 \<Longrightarrow> take k (butlast subpaths) = take k subpaths"
        by (simp add: take_butlast butlast_conv_take min_def)
      show ?thesis
        unfolding step IH
      proof (intro iffI; elim exE conjE)
        fix n
        assume n: "2 \<le> n" "n \<le> length (butlast subpaths)" "r = cps (take n (butlast subpaths))"
          "hasOwnProperty ap (cps (take n (butlast subpaths)))"
          "\<forall>m. n < m \<and> m \<le> length (butlast subpaths) \<longrightarrow>
             \<not> hasOwnProperty ap (cps (take m (butlast subpaths)))"
        have "\<not> hasOwnProperty ap (cps (take m subpaths))" if "n < m" "m \<le> length subpaths" for m
        proof (cases "m = length subpaths")
          case True
          with False show ?thesis by simp
        next
          case neq: False
          with that have "m \<le> length subpaths - 1" by linarith
          with that n(5) tk [of m] show ?thesis by auto
        qed
        with n tk [of n] show "\<exists>n. 2 \<le> n \<and> n \<le> length subpaths \<and> r = cps (take n subpaths) \<and>
          hasOwnProperty ap (cps (take n subpaths)) \<and>
          (\<forall>m. n < m \<and> m \<le> length subpaths \<longrightarrow> \<not> hasOwnProperty ap (cps (take m subpaths)))"
          by (intro exI [of _ n]) simp
      next
        fix n
        assume n: "2 \<le> n" "n \<le> length subpaths" "r = cps (take n subpaths)"
          "hasOwnProperty ap (cps (take n subpaths))"
          "\<forall>m. n < m \<and> m \<le> length subpaths \<longrightarrow> \<not> hasOwnProperty ap (cps (take m subpaths))"
        have "n \<noteq> length subpaths"
          using n(4) False by auto
        with n have le: "n \<le> length subpaths - 1" by linarith
        have "\<not> hasOwnProperty ap (cps (take m (butlast subpaths)))"
          if "n < m" "m \<le> length (butlast subpaths)" for m
          using that n(5) tk [of m] by auto
        with n le tk [of n]
        show "\<exists>n. 2 \<le> n \<and> n \<le> length (butlast subpaths) \<and> r = cps (take n (butlast subpaths)) \<and>
          hasOwnProperty ap (cps (take n (butlast subpaths))) \<and>
          (\<forall>m. n < m \<and> m \<le> length (butlast subpaths) \<longrightarrow>
             \<not> hasOwnProperty ap (cps (take m (butlast subpaths))))"
          by (intro exI [of _ n]) simp
      qed
    qed
  qed
qed

lemma while_subpaths_None:
  "while_subpaths cps ap subpaths = None \<longleftrightarrow>
     (\<forall>n. 2 \<le> n \<and> n \<le> length subpaths \<longrightarrow> \<not> hasOwnProperty ap (cps (take n subpaths)))"
proof (induction cps ap subpaths rule: while_subpaths.induct)
  case (1 cps ap subpaths)
  show ?case
  proof (cases "length subpaths > 1")
    case False
    then show ?thesis
      by (subst while_subpaths.simps) auto
  next
    case long: True
    show ?thesis
    proof (cases "hasOwnProperty ap (cps subpaths)")
      case True
      have "while_subpaths cps ap subpaths = Some (cps subpaths)"
        using long True by (subst while_subpaths.simps) simp
      moreover have "\<exists>n. 2 \<le> n \<and> n \<le> length subpaths \<and> hasOwnProperty ap (cps (take n subpaths))"
        using long True by (intro exI [of _ "length subpaths"]) simp
      ultimately show ?thesis by auto
    next
      case False
      have step: "while_subpaths cps ap subpaths = while_subpaths cps ap (butlast subpaths)"
        using long False by (subst while_subpaths.simps) simp
      have tk: "\<And>k. k \<le> length subpaths - 1 \<Longrightarrow> take k (butlast subpaths) = take k subpaths"
        by (simp add: take_butlast butlast_conv_take min_def)
      have "(\<forall>n. 2 \<le> n \<and> n \<le> length (butlast subpaths) \<longrightarrow>
               \<not> hasOwnProperty ap (cps (take n (butlast subpaths)))) \<longleftrightarrow>
            (\<forall>n. 2 \<le> n \<and> n \<le> length subpaths \<longrightarrow> \<not> hasOwnProperty ap (cps (take n subpaths)))"
        (is "?A \<longleftrightarrow> ?B")
      proof
        assume a: ?A
        show ?B
        proof (intro allI impI)
          fix n assume n: "2 \<le> n \<and> n \<le> length subpaths"
          show "\<not> hasOwnProperty ap (cps (take n subpaths))"
          proof (cases "n = length subpaths")
            case True
            with False show ?thesis by simp
          next
            case neq: False
            with n have "n \<le> length subpaths - 1" by linarith
            with a n tk [of n] show ?thesis by auto
          qed
        qed
      next
        assume b: ?B
        show ?A
        proof (intro allI impI)
          fix n assume n: "2 \<le> n \<and> n \<le> length (butlast subpaths)"
          then have "n \<le> length subpaths - 1" by simp
          with b n tk [of n] show "\<not> hasOwnProperty ap (cps (take n (butlast subpaths)))" by auto
        qed
      qed
      with step "1.IH" [OF long refl False] show ?thesis by simp
    qed
  qed
qed


section \<open>Lemmas on the slider utilities\<close>

lemma getChangeValue_left_unit:
  assumes "containerWidth p = Some w" and "w \<noteq> 0"
  shows "getChangeValue_left p = min (max (value_n p) 0) w / w \<and>
         0 \<le> getChangeValue_left p \<and> getChangeValue_left p \<le> 1"
proof -
  have eq: "getChangeValue_left p = min (max (value_n p) 0) w / w"
    using assms by (simp add: getChangeValue_left_def)
  show ?thesis
  proof (cases "0 < w")
    case True
    then show ?thesis unfolding eq by (simp add: divide_le_eq)
  next
    case False
    with assms have "w < 0" by simp
    then have "min (max (value_n p) 0) w = w" by (simp add: min_def max_def)
    with \<open>w \<noteq> 0\<close> show ?thesis unfolding eq by simp
  qed
qed

lemma getChangeValue_step_multiple:
  assumes "precision p = None" and "step p \<noteq> 0"
  shows "\<exists>k::int. getChangeValue p = Inr (Finite (min_n p + of_int k * step p)) \<and>
           (getChangeValue_dx p = 0 \<longrightarrow> k = 0)"
proof (cases "getChangeValue_dx p = 0")
  case True
  with assms show ?thesis
    by (intro exI [of _ 0]) (simp add: getChangeValue_def Let_def)
next
  case False
  with assms show ?thesis
    by (intro exI [of _ "\<lfloor>getChangeValue_dx p / step p + 1 / 2\<rfloor>"])
       (simp add: getChangeValue_def Let_def divide_number_def add.commute)
qed

section \<open>The claims\<close>

text \<open>
  C1. For every array of identifiers and every \<^verbatim>\<open>allPaths\<close> map, every element of the
  references returned by \<^verbatim>\<open>extractInfoFromIdentifiers\<close> is a key of \<^verbatim>\<open>allPaths\<close>, and
  the references hold no duplicate; the same holds for the references returned by
  \<^verbatim>\<open>extractInfoFromBinding\<close>.
\<close>

theorem references_are_distinct_keys:
  "(\<forall>r \<in> set (references (extractInfoFromIdentifiers tp cps ids ap)). r \<in> dom ap) \<and>
   distinct (references (extractInfoFromIdentifiers tp cps ids ap)) \<and>
   (\<forall>r \<in> set (references (extractInfoFromBinding eifc self tp cps script ap)). r \<in> dom ap) \<and>
   distinct (references (extractInfoFromBinding eifc self tp cps script ap))"
proof -
  have keys: "\<forall>r \<in> set (references (extractInfoFromIdentifiers tp cps xs ap)). r \<in> dom ap" for xs
    using derived_reference_key [of tp cps ap]
    by (auto simp: references_extractInfoFromIdentifiers fold_callback_references
        hasOwnProperty_def)
  have dist: "distinct (references (extractInfoFromIdentifiers tp cps xs ap))" for xs
    by (simp add: references_extractInfoFromIdentifiers fold_callback_distinct)
  show ?thesis
    using keys dist by (simp add: extractInfoFromBinding_def)
qed

theorem references_are_distinct_keys_witness:
  "references (extractInfoFromIdentifiers dotted_toPath dotted_convertPathToString
      [''Api1.name'', ''unknownEntity.name'', ''Table1.selectedRow.name'', ''Api1.name'']
      [''Api1.name'' \<mapsto> (), ''Table1.selectedRow'' \<mapsto> ()])
     = [''Api1.name'', ''Table1.selectedRow''] \<and>
   ''Api1.name'' \<in> dom [''Api1.name'' \<mapsto> (), ''Table1.selectedRow'' \<mapsto> ()] \<and>
   ''Table1.selectedRow'' \<in> dom [''Api1.name'' \<mapsto> (), ''Table1.selectedRow'' \<mapsto> ()] \<and>
   distinct (references (extractInfoFromIdentifiers dotted_toPath dotted_convertPathToString
      [''Api1.name'', ''unknownEntity.name'', ''Table1.selectedRow.name'', ''Api1.name'']
      [''Api1.name'' \<mapsto> (), ''Table1.selectedRow'' \<mapsto> ()]))"
  using references_are_distinct_keys [of dotted_toPath dotted_convertPathToString
      "[''Api1.name'', ''unknownEntity.name'', ''Table1.selectedRow.name'', ''Api1.name'']"
      "[''Api1.name'' \<mapsto> (), ''Table1.selectedRow'' \<mapsto> ()]"]
  by (simp add: extractInfoFromIdentifiers_def forEach_callback_def hasOwnProperty_def
      Set_add_def while_subpaths.simps dotted_toPath_def dotted_convertPathToString_def)

text \<open>
  C2. Every input identifier is classified: either a reference derived from it is among
  the returned references (the identifier itself when it is a key of \<^verbatim>\<open>allPaths\<close>, or
  the string of a prefix of its segment path, of at least two segments), or the
  identifier is among the returned \<^verbatim>\<open>unreferencedIdentifiers\<close>; never neither.
\<close>

theorem identifiers_classified_exhaustively:
  assumes "identifier \<in> set identifiers"
  shows "(hasOwnProperty ap identifier \<and>
            identifier \<in> set (references (extractInfoFromIdentifiers tp cps identifiers ap))) \<or>
         (\<exists>n. 2 \<le> n \<and> n \<le> length (tp identifier) \<and>
            cps (take n (tp identifier))
              \<in> set (references (extractInfoFromIdentifiers tp cps identifiers ap))) \<or>
         identifier \<in> set (unreferencedIdentifiers (extractInfoFromIdentifiers tp cps identifiers ap))"
proof (cases "derived_reference tp cps ap identifier")
  case None
  with assms show ?thesis
    by (simp add: unreferenced_extractInfoFromIdentifiers fold_callback_unreferenced)
next
  case (Some r)
  with assms have r: "r \<in> set (references (extractInfoFromIdentifiers tp cps identifiers ap))"
    by (auto simp: references_extractInfoFromIdentifiers fold_callback_references)
  show ?thesis
  proof (cases "hasOwnProperty ap identifier")
    case True
    with Some r show ?thesis by (simp add: derived_reference_def)
  next
    case False
    with Some have "while_subpaths cps ap (tp identifier) = Some r"
      by (simp add: derived_reference_def)
    then obtain n where "2 \<le> n" "n \<le> length (tp identifier)" "r = cps (take n (tp identifier))"
      unfolding while_subpaths_Some by blast
    with r show ?thesis by blast
  qed
qed

theorem identifiers_classified_exhaustively_witness:
  "''unknownEntity.name'' \<in> set [''Api1.name'', ''unknownEntity.name'', ''Table1.selectedRow.name''] \<and>
   ''Table1.selectedRow.name'' \<in> set [''Api1.name'', ''unknownEntity.name'', ''Table1.selectedRow.name''] \<and>
   references (extractInfoFromIdentifiers dotted_toPath dotted_convertPathToString [''Api1.name'', ''unknownEntity.name'', ''Table1.selectedRow.name'']
      [''Api1.name'' \<mapsto> (), ''Table1.selectedRow'' \<mapsto> ()])
     = [''Api1.name'', ''Table1.selectedRow''] \<and>
   unreferencedIdentifiers (extractInfoFromIdentifiers dotted_toPath dotted_convertPathToString [''Api1.name'', ''unknownEntity.name'', ''Table1.selectedRow.name'']
      [''Api1.name'' \<mapsto> (), ''Table1.selectedRow'' \<mapsto> ()])
     = [''unknownEntity.name'']"
  using identifiers_classified_exhaustively [of "''unknownEntity.name''" "[''Api1.name'', ''unknownEntity.name'', ''Table1.selectedRow.name'']"
      "[''Api1.name'' \<mapsto> (), ''Table1.selectedRow'' \<mapsto> ()]"
      dotted_toPath dotted_convertPathToString]
  by (simp add: extractInfoFromIdentifiers_def forEach_callback_def hasOwnProperty_def
      Set_add_def while_subpaths.simps dotted_toPath_def dotted_convertPathToString_def)

text \<open>
  C3. For an identifier that is not a key of \<^verbatim>\<open>allPaths\<close>, but whose segment path
  \<^verbatim>\<open>toPath(identifier)\<close> has a prefix of at least two segments (\<open>k\<close> of them) whose string
  is a key, the callback adds to the references exactly the string of the longest such
  prefix (\<open>n\<close> segments) and leaves \<^verbatim>\<open>unreferencedIdentifiers\<close> as it is; so, when the
  identifier is among the input, that string is among the returned references and the
  identifier is not among the returned \<^verbatim>\<open>unreferencedIdentifiers\<close>.
\<close>

theorem longest_prefix_is_the_reference:
  assumes "\<not> hasOwnProperty ap identifier"
    and "2 \<le> k" and "k \<le> length (tp identifier)"
    and "hasOwnProperty ap (cps (take k (tp identifier)))"
  shows "\<exists>n. k \<le> n \<and> n \<le> length (tp identifier) \<and>
           hasOwnProperty ap (cps (take n (tp identifier))) \<and>
           (\<forall>m. n < m \<and> m \<le> length (tp identifier) \<longrightarrow>
                \<not> hasOwnProperty ap (cps (take m (tp identifier)))) \<and>
           forEach_callback tp cps ap identifier (refs, unrefs) =
             (Set_add (cps (take n (tp identifier))) refs, unrefs) \<and>
           (identifier \<in> set identifiers \<longrightarrow>
              cps (take n (tp identifier))
                \<in> set (references (extractInfoFromIdentifiers tp cps identifiers ap)) \<and>
              identifier
                \<notin> set (unreferencedIdentifiers (extractInfoFromIdentifiers tp cps identifiers ap)))"
proof -
  have "while_subpaths cps ap (tp identifier) \<noteq> None"
    unfolding while_subpaths_None using assms(2-4) by blast
  then obtain r where r: "while_subpaths cps ap (tp identifier) = Some r"
    by blast
  then obtain n where n: "2 \<le> n" "n \<le> length (tp identifier)" "r = cps (take n (tp identifier))"
    "hasOwnProperty ap (cps (take n (tp identifier)))"
    "\<forall>m. n < m \<and> m \<le> length (tp identifier) \<longrightarrow>
         \<not> hasOwnProperty ap (cps (take m (tp identifier)))"
    unfolding while_subpaths_Some by blast
  have "k \<le> n"
  proof (rule ccontr)
    assume "\<not> k \<le> n"
    with n(5) assms(3) have "\<not> hasOwnProperty ap (cps (take k (tp identifier)))" by simp
    with assms(4) show False by simp
  qed
  moreover have d: "derived_reference tp cps ap identifier = Some (cps (take n (tp identifier)))"
    using assms(1) r n(3) by (simp add: derived_reference_def)
  then have "forEach_callback tp cps ap identifier (refs, unrefs) =
             (Set_add (cps (take n (tp identifier))) refs, unrefs)"
    by (simp add: forEach_callback_derived)
  moreover have "cps (take n (tp identifier))
        \<in> set (references (extractInfoFromIdentifiers tp cps identifiers ap))"
    if "identifier \<in> set identifiers"
    using that d by (auto simp: references_extractInfoFromIdentifiers fold_callback_references)
  moreover have "identifier
        \<notin> set (unreferencedIdentifiers (extractInfoFromIdentifiers tp cps identifiers ap))"
    using d by (simp add: unreferenced_extractInfoFromIdentifiers fold_callback_unreferenced)
  ultimately show ?thesis
    using n(2,4,5) by blast
qed

theorem longest_prefix_is_the_reference_witness:
  "\<not> hasOwnProperty [''Table1.selectedRow'' \<mapsto> (), ''Table1'' \<mapsto> ()] ''Table1.selectedRow.name'' \<and>
   (2::nat) \<le> 2 \<and> 2 \<le> length (dotted_toPath ''Table1.selectedRow.name'') \<and>
   hasOwnProperty [''Table1.selectedRow'' \<mapsto> (), ''Table1'' \<mapsto> ()]
     (dotted_convertPathToString (take 2 (dotted_toPath ''Table1.selectedRow.name''))) \<and>
   forEach_callback dotted_toPath dotted_convertPathToString
     [''Table1.selectedRow'' \<mapsto> (), ''Table1'' \<mapsto> ()] ''Table1.selectedRow.name'' ([], [])
     = ([''Table1.selectedRow''], []) \<and>
   extractInfoFromIdentifiers dotted_toPath dotted_convertPathToString
     [''Table1.selectedRow.name''] [''Table1.selectedRow'' \<mapsto> (), ''Table1'' \<mapsto> ()]
     = \<lparr>references = [''Table1.selectedRow''], unreferencedIdentifiers = []\<rparr>"
  using longest_prefix_is_the_reference [of "[''Table1.selectedRow'' \<mapsto> (), ''Table1'' \<mapsto> ()]"
      "''Table1.selectedRow.name''" 2 dotted_toPath dotted_convertPathToString "[]" "[]"
      "[''Table1.selectedRow.name'']"]
  by (simp add: extractInfoFromIdentifiers_def forEach_callback_def hasOwnProperty_def
      Set_add_def while_subpaths.simps dotted_toPath_def dotted_convertPathToString_def)

text \<open>
  C4. For an identifier that is itself a key of \<^verbatim>\<open>allPaths\<close>, the callback adds the
  identifier to the references as it is written (neither \<^verbatim>\<open>toPath\<close> nor
  \<^verbatim>\<open>convertPathToString\<close> is applied to it) and leaves \<^verbatim>\<open>unreferencedIdentifiers\<close> as
  it is; the identifier is never among the returned \<^verbatim>\<open>unreferencedIdentifiers\<close>, and it
  is among the returned references when it is among the input.
\<close>

theorem key_identifier_added_verbatim:
  assumes "hasOwnProperty ap identifier"
  shows "forEach_callback tp cps ap identifier (refs, unrefs) = (Set_add identifier refs, unrefs) \<and>
         identifier \<notin> set (unreferencedIdentifiers (extractInfoFromIdentifiers tp cps identifiers ap)) \<and>
         (identifier \<in> set identifiers \<longrightarrow>
            identifier \<in> set (references (extractInfoFromIdentifiers tp cps identifiers ap)))"
proof -
  have d: "derived_reference tp cps ap identifier = Some identifier"
    using assms by (simp add: derived_reference_def)
  have "forEach_callback tp cps ap identifier (refs, unrefs) = (Set_add identifier refs, unrefs)"
    using d by (simp add: forEach_callback_derived)
  moreover have "identifier
      \<notin> set (unreferencedIdentifiers (extractInfoFromIdentifiers tp cps identifiers ap))"
    using d by (simp add: unreferenced_extractInfoFromIdentifiers fold_callback_unreferenced)
  moreover have "identifier \<in> set (references (extractInfoFromIdentifiers tp cps identifiers ap))"
    if "identifier \<in> set identifiers"
    using that d by (auto simp: references_extractInfoFromIdentifiers fold_callback_references)
  ultimately show ?thesis by blast
qed

theorem key_identifier_added_verbatim_witness:
  "hasOwnProperty [''Table1[0].name'' \<mapsto> ()] ''Table1[0].name'' \<and>
   forEach_callback dotted_toPath dotted_convertPathToString [''Table1[0].name'' \<mapsto> ()]
     ''Table1[0].name'' ([], []) = ([''Table1[0].name''], []) \<and>
   extractInfoFromIdentifiers dotted_toPath dotted_convertPathToString
     [''Table1[0].name''] [''Table1[0].name'' \<mapsto> ()]
     = \<lparr>references = [''Table1[0].name''], unreferencedIdentifiers = []\<rparr>"
  using key_identifier_added_verbatim [of "[''Table1[0].name'' \<mapsto> ()]" "''Table1[0].name''"
      dotted_toPath dotted_convertPathToString "[]" "[]" "[''Table1[0].name'']"]
  by (simp add: extractInfoFromIdentifiers_def forEach_callback_def hasOwnProperty_def
      Set_add_def while_subpaths.simps dotted_toPath_def dotted_convertPathToString_def)

text \<open>
  C5. An identifier that is not a key of \<^verbatim>\<open>allPaths\<close>, and no prefix of at least two
  segments of which is a key, is reported as unreferenced: the callback pushes it to
  \<^verbatim>\<open>unreferencedIdentifiers\<close> and adds nothing to the references. Nothing is assumed of
  the first segment alone: this holds also when the bare entity name is a key, as in the
  example that follows the theorem (\<^verbatim>\<open>Table1\<close> is a key, \<^verbatim>\<open>Table1.selectedRow\<close> is
  unreferenced).
\<close>

theorem top_level_entity_not_referenced:
  assumes "\<not> hasOwnProperty ap identifier"
    and "\<forall>n. 2 \<le> n \<and> n \<le> length (tp identifier) \<longrightarrow>
           \<not> hasOwnProperty ap (cps (take n (tp identifier)))"
  shows "forEach_callback tp cps ap identifier (refs, unrefs) = (refs, unrefs @ [identifier]) \<and>
         (identifier \<in> set identifiers \<longrightarrow>
            identifier \<in> set (unreferencedIdentifiers (extractInfoFromIdentifiers tp cps identifiers ap)))"
proof -
  have "while_subpaths cps ap (tp identifier) = None"
    unfolding while_subpaths_None using assms(2) .
  with assms(1) have d: "derived_reference tp cps ap identifier = None"
    by (simp add: derived_reference_def)
  then have "forEach_callback tp cps ap identifier (refs, unrefs) = (refs, unrefs @ [identifier])"
    by (simp add: forEach_callback_derived)
  moreover have "identifier
      \<in> set (unreferencedIdentifiers (extractInfoFromIdentifiers tp cps identifiers ap))"
    if "identifier \<in> set identifiers"
    using that d by (simp add: unreferenced_extractInfoFromIdentifiers fold_callback_unreferenced)
  ultimately show ?thesis by blast
qed

theorem top_level_entity_not_referenced_witness:
  "\<not> hasOwnProperty [''Table1'' \<mapsto> ()] ''Table1.selectedRow'' \<and>
   dotted_toPath ''Table1.selectedRow'' = [''Table1'', ''selectedRow''] \<and>
   \<not> hasOwnProperty [''Table1'' \<mapsto> ()]
     (dotted_convertPathToString (take 2 (dotted_toPath ''Table1.selectedRow''))) \<and>
   hasOwnProperty [''Table1'' \<mapsto> ()]
     (dotted_convertPathToString (take 1 (dotted_toPath ''Table1.selectedRow''))) \<and>
   forEach_callback dotted_toPath dotted_convertPathToString [''Table1'' \<mapsto> ()]
     ''Table1.selectedRow'' ([], []) = ([], [''Table1.selectedRow'']) \<and>
   extractInfoFromIdentifiers dotted_toPath dotted_convertPathToString
     [''Table1.selectedRow''] [''Table1'' \<mapsto> ()]
     = \<lparr>references = [], unreferencedIdentifiers = [''Table1.selectedRow'']\<rparr>"
proof -
  let ?ap = "[''Table1'' \<mapsto> ()]"
  have path: "dotted_toPath ''Table1.selectedRow'' = [''Table1'', ''selectedRow'']"
    by (simp add: dotted_toPath_def)
  have h1: "\<not> hasOwnProperty ?ap ''Table1.selectedRow''"
    by (simp add: hasOwnProperty_def)
  have h2: "\<forall>n. 2 \<le> n \<and> n \<le> length (dotted_toPath ''Table1.selectedRow'') \<longrightarrow>
      \<not> hasOwnProperty ?ap (dotted_convertPathToString (take n (dotted_toPath ''Table1.selectedRow'')))"
    by (simp add: path hasOwnProperty_def dotted_convertPathToString_def)
  show ?thesis
    using top_level_entity_not_referenced [where tp = dotted_toPath
        and cps = dotted_convertPathToString and refs = "[]" and unrefs = "[]"
        and identifiers = "[''Table1.selectedRow'']", OF h1 h2]
    by (simp add: extractInfoFromIdentifiers_def forEach_callback_def hasOwnProperty_def
      Set_add_def while_subpaths.simps dotted_toPath_def dotted_convertPathToString_def)
qed

text \<open>
  C8. \<^verbatim>\<open>extractInfoFromBinding(script, allPaths)\<close> returns exactly
  \<^verbatim>\<open>extractInfoFromIdentifiers(identifiers, allPaths)\<close>, where \<open>identifiers\<close> is what
  \<^verbatim>\<open>extractIdentifiersFromCode\<close> yields for the script and the current evaluation
  version: as a function of the script, it is \<open>extraction_composition\<close>.
\<close>

theorem binding_is_composition:
  "extractInfoFromBinding eifc self tp cps script ap =
     extractInfoFromIdentifiers tp cps (eifc script (map_option evaluationVersion self)) ap \<and>
   (\<lambda>script. extractInfoFromBinding eifc self tp cps script ap) =
     extraction_composition eifc (map_option evaluationVersion self) tp cps ap"
  by (simp add: extractInfoFromBinding_def extraction_composition_def fun_eq_iff)

text \<open>
  C9. When \<open>max\<close> differs from \<open>min\<close>, \<^verbatim>\<open>getPosition\<close> returns
  \<open>((value - min) / (max - min)) * 100\<close> clamped into \<open>[0, 100]\<close>; the position returned
  lies between 0 and 100.
\<close>

theorem getPosition_clamped:
  assumes "max_n p \<noteq> min_n p"
  shows "getPosition p =
           Finite (min (max (((value_n p - min_n p) / (max_n p - min_n p)) * 100) 0) 100) \<and>
         (\<exists>r. getPosition p = Finite r \<and> 0 \<le> r \<and> r \<le> 100)"
  using assms by (simp add: getPosition_def divide_number_def Let_def)

theorem getPosition_clamped_witness:
  "max_n \<lparr>value_n = 5, min_n = 2, max_n = 10\<rparr> \<noteq> min_n \<lparr>value_n = 5, min_n = 2, max_n = 10\<rparr> \<and>
   getPosition \<lparr>value_n = 5, min_n = 2, max_n = 10\<rparr> = Finite (75 / 2) \<and>
   getPosition \<lparr>value_n = 12, min_n = 2, max_n = 10\<rparr> = Finite 100 \<and>
   getPosition \<lparr>value_n = 1, min_n = 2, max_n = 10\<rparr> = Finite 0"
  using getPosition_clamped [of "\<lparr>value_n = 5, min_n = 2, max_n = 10\<rparr>"]
    getPosition_clamped [of "\<lparr>value_n = 12, min_n = 2, max_n = 10\<rparr>"]
    getPosition_clamped [of "\<lparr>value_n = 1, min_n = 2, max_n = 10\<rparr>"]
  by simp

text \<open>
  C10. When \<^verbatim>\<open>precision\<close> is \<^verbatim>\<open>undefined\<close> and \<^verbatim>\<open>step\<close> is not zero, \<^verbatim>\<open>getChangeValue\<close>
  returns \<open>min + k * step\<close> for an integer \<open>k\<close>, and \<open>k = 0\<close> when the displacement
  \<open>dx = left * (max - min)\<close> is zero. When \<^verbatim>\<open>containerWidth\<close> is given and not zero,
  \<open>left\<close> is \<^verbatim>\<open>Math.min(Math.max(value, 0), containerWidth) / containerWidth\<close>, which lies
  in \<open>[0, 1]\<close>.
\<close>

theorem getChangeValue_on_step_grid:
  assumes "precision p = None" and "step p \<noteq> 0"
  shows "(\<exists>k::int. getChangeValue p = Inr (Finite (min_n p + of_int k * step p)) \<and>
            (getChangeValue_dx p = 0 \<longrightarrow> k = 0)) \<and>
         (\<forall>w. containerWidth p = Some w \<and> w \<noteq> 0 \<longrightarrow>
            getChangeValue_left p = min (max (value_n p) 0) w / w \<and>
            0 \<le> getChangeValue_left p \<and> getChangeValue_left p \<le> 1)"
  using getChangeValue_step_multiple [OF assms] getChangeValue_left_unit [of p]
  by blast

theorem getChangeValue_on_step_grid_witness:
  "precision \<lparr>value_n = 37, min_n = 10, max_n = 110, step = 5, precision = None,
               containerWidth = Some 200\<rparr> = None \<and>
   step \<lparr>value_n = 37, min_n = 10, max_n = 110, step = 5, precision = None,
          containerWidth = Some 200\<rparr> \<noteq> 0 \<and>
   getChangeValue \<lparr>value_n = 37, min_n = 10, max_n = 110, step = 5, precision = None,
                    containerWidth = Some 200\<rparr> = Inr (Finite (10 + of_int 4 * 5)) \<and>
   getChangeValue_left \<lparr>value_n = 37, min_n = 10, max_n = 110, step = 5, precision = None,
                         containerWidth = Some 200\<rparr> = 37 / 200"
  using getChangeValue_on_step_grid [of "\<lparr>value_n = 37, min_n = 10, max_n = 110, step = 5,
      precision = None, containerWidth = Some 200\<rparr>"]
  by (simp add: getChangeValue_def getChangeValue_dx_def getChangeValue_left_def
      divide_number_def Let_def floor_eq_iff)

end
